theory Spec2Isabelle
  imports Complex_Main "HOL-Library.Word" "HOL-Library.Signed_Division"
begin

section \<open>Go values used by the ping program\<close>

text \<open>
  \<open>int64\<close>, \<open>uint64\<close> and \<open>time.Duration\<close> (an \<open>int64\<close> count of nanoseconds) are
  64-bit words: \<open>+\<close> wraps around, \<open>sint\<close> reads the signed value.  An instant
  (\<open>time.Time\<close>) is its position on the nanosecond time line.
\<close>

type_synonym int64 = "64 word"
type_synonym uint64 = "64 word"
type_synonym Duration = "64 word"
type_synonym Time = int

text \<open>
  What ends the process: a panic nothing recovers from, a fatal error of the runtime, or a
  lock that a sequential run can never take.
\<close>

datatype crash =
    DivideByZero
  | UnlockOfUnlockedMutex
  | LockBlocksForever
  | SliceOutOfRange
  | NilDereference

text \<open>Go's \<open>a / b\<close> on \<open>int64\<close>: truncates towards zero, panics when \<open>b = 0\<close>.\<close>

definition int64_div :: "int64 \<Rightarrow> int64 \<Rightarrow> crash + int64" where
  "int64_div a b = (if b = 0 then Inl DivideByZero else Inr (word_of_int (sint a sdiv sint b)))"

text \<open>\<open>t.Sub(u)\<close>, and so \<open>time.Since(u)\<close> at the instant \<open>t\<close>: saturates at the ends of \<open>int64\<close>.\<close>

definition time_Sub :: "Time \<Rightarrow> Time \<Rightarrow> Duration" where
  "time_Sub t u =
     (if t - u > 2 ^ 63 - 1 then word_of_int (2 ^ 63 - 1)
      else if t - u < - (2 ^ 63) then word_of_int (- (2 ^ 63))
      else word_of_int (t - u))"

subsection \<open>float64\<close>

text \<open>
  A \<open>float64\<close> is a finite real, an infinity or not-a-number.  The sign of zero is left
  out: \<open>Calculate\<close> never divides by a negative zero.  \<open>f64_round\<close> is IEEE 754 binary64
  rounding to nearest, ties to even, of an exact result.
\<close>

datatype f64 = Fin real | PosInf | NegInf | NaN

definition round_half_even :: "real \<Rightarrow> int" where
  "round_half_even r =
     (let f = \<lfloor>r\<rfloor>; d = r - of_int f
      in if d < 1 / 2 then f else if d > 1 / 2 then f + 1 else if even f then f else f + 1)"

definition f64_exponent :: "real \<Rightarrow> int" where
  "f64_exponent x = max \<lfloor>log 2 \<bar>x\<bar>\<rfloor> (- 1022)"

definition f64_round :: "real \<Rightarrow> f64" where
  "f64_round x =
     (if x = 0 then Fin 0
      else let u = 2 powr (of_int (f64_exponent x) - 52);
               y = of_int (round_half_even (x / u)) * u
           in if \<bar>y\<bar> \<ge> 2 powr 1024 then (if x > 0 then PosInf else NegInf) else Fin y)"

fun fadd :: "f64 \<Rightarrow> f64 \<Rightarrow> f64" where
  "fadd (Fin a) (Fin b) = f64_round (a + b)"
| "fadd NaN _ = NaN"
| "fadd _ NaN = NaN"
| "fadd PosInf NegInf = NaN"
| "fadd NegInf PosInf = NaN"
| "fadd PosInf _ = PosInf"
| "fadd NegInf _ = NegInf"
| "fadd _ PosInf = PosInf"
| "fadd _ NegInf = NegInf"

fun fneg :: "f64 \<Rightarrow> f64" where
  "fneg (Fin a) = Fin (- a)"
| "fneg PosInf = NegInf"
| "fneg NegInf = PosInf"
| "fneg NaN = NaN"

definition fsub :: "f64 \<Rightarrow> f64 \<Rightarrow> f64" where
  "fsub x y = fadd x (fneg y)"

fun fmul :: "f64 \<Rightarrow> f64 \<Rightarrow> f64" where
  "fmul (Fin a) (Fin b) = f64_round (a * b)"
| "fmul NaN _ = NaN"
| "fmul _ NaN = NaN"
| "fmul (Fin a) PosInf = (if a = 0 then NaN else if a > 0 then PosInf else NegInf)"
| "fmul (Fin a) NegInf = (if a = 0 then NaN else if a > 0 then NegInf else PosInf)"
| "fmul PosInf (Fin b) = (if b = 0 then NaN else if b > 0 then PosInf else NegInf)"
| "fmul NegInf (Fin b) = (if b = 0 then NaN else if b > 0 then NegInf else PosInf)"
| "fmul PosInf PosInf = PosInf"
| "fmul NegInf NegInf = PosInf"
| "fmul PosInf NegInf = NegInf"
| "fmul NegInf PosInf = NegInf"

fun fdiv :: "f64 \<Rightarrow> f64 \<Rightarrow> f64" where
  "fdiv (Fin a) (Fin b) =
     (if b = 0 then (if a = 0 then NaN else if a > 0 then PosInf else NegInf)
      else f64_round (a / b))"
| "fdiv NaN _ = NaN"
| "fdiv _ NaN = NaN"
| "fdiv (Fin a) PosInf = Fin 0"
| "fdiv (Fin a) NegInf = Fin 0"
| "fdiv PosInf (Fin b) = (if b \<ge> 0 then PosInf else NegInf)"
| "fdiv NegInf (Fin b) = (if b \<ge> 0 then NegInf else PosInf)"
| "fdiv PosInf PosInf = NaN"
| "fdiv PosInf NegInf = NaN"
| "fdiv NegInf PosInf = NaN"
| "fdiv NegInf NegInf = NaN"

text \<open>\<open>math.Sqrt\<close>: not-a-number below zero.\<close>

fun math_Sqrt :: "f64 \<Rightarrow> f64" where
  "math_Sqrt (Fin a) = (if a < 0 then NaN else f64_round (sqrt a))"
| "math_Sqrt PosInf = PosInf"
| "math_Sqrt NegInf = NaN"
| "math_Sqrt NaN = NaN"

text \<open>\<open>math.Pow(x, 2)\<close>, the only power the program takes: the rounded square.\<close>

fun math_Pow2 :: "f64 \<Rightarrow> f64" where
  "math_Pow2 (Fin a) = f64_round (a * a)"
| "math_Pow2 PosInf = PosInf"
| "math_Pow2 NegInf = PosInf"
| "math_Pow2 NaN = NaN"

text \<open>\<open>math.Min\<close> and \<open>math.Max\<close>: an infinity of the right sign wins, then not-a-number.\<close>

fun math_Min :: "f64 \<Rightarrow> f64 \<Rightarrow> f64" where
  "math_Min NegInf _ = NegInf"
| "math_Min _ NegInf = NegInf"
| "math_Min NaN _ = NaN"
| "math_Min _ NaN = NaN"
| "math_Min (Fin a) (Fin b) = (if a < b then Fin a else Fin b)"
| "math_Min (Fin a) PosInf = Fin a"
| "math_Min PosInf y = y"

fun math_Max :: "f64 \<Rightarrow> f64 \<Rightarrow> f64" where
  "math_Max PosInf _ = PosInf"
| "math_Max _ PosInf = PosInf"
| "math_Max NaN _ = NaN"
| "math_Max _ NaN = NaN"
| "math_Max (Fin a) (Fin b) = (if a > b then Fin a else Fin b)"
| "math_Max (Fin a) NegInf = Fin a"
| "math_Max NegInf y = y"

text \<open>\<open>float64(i)\<close> of an \<open>int64\<close> or \<open>int\<close>.\<close>

definition f64_of_int :: "int \<Rightarrow> f64" where
  "f64_of_int k = f64_round (of_int k)"

text \<open>
  \<open>int64(x)\<close> of a \<open>float64\<close> truncates towards zero.  Where \<open>int64\<close> cannot represent
  the value (an infinity, not-a-number, out of range) the result is implementation
  dependent: it is what the platform's conversion \<open>cvt\<close> gives.
\<close>

definition truncate_real :: "real \<Rightarrow> int" where
  "truncate_real r = (if r \<ge> 0 then \<lfloor>r\<rfloor> else \<lceil>r\<rceil>)"

definition int64_of_f64 :: "(f64 \<Rightarrow> int64) \<Rightarrow> f64 \<Rightarrow> int64" where
  "int64_of_f64 cvt x =
     (case x of
        Fin r \<Rightarrow>
          (if - (2 ^ 63) \<le> truncate_real r \<and> truncate_real r < 2 ^ 63
           then word_of_int (truncate_real r) else cvt x)
      | _ \<Rightarrow> cvt x)"

text \<open>The amd64 conversion instruction answers every such value with the least \<open>int64\<close>.\<close>

definition amd64_cvt :: "f64 \<Rightarrow> int64" where
  "amd64_cvt x = word_of_int (- (2 ^ 63))"

section \<open>Statistics: \<open>PingStats\<close>\<close>

record packetStat =
  successful :: bool
  rtt :: "Duration option"

record PingStats =
  startTime :: Time
  packets :: "packetStat list"

record PingSummary =
  NumPackets :: uint64
  NumReceived :: uint64
  TotalDuration :: Duration
  MinRTT :: Duration
  AvgRTT :: Duration
  MaxRTT :: Duration
  SdevRTT :: Duration

definition zero_summary :: PingSummary where
  "zero_summary =
     \<lparr>NumPackets = 0, NumReceived = 0, TotalDuration = 0,
      MinRTT = 0, AvgRTT = 0, MaxRTT = 0, SdevRTT = 0\<rparr>"

definition Start :: "Time \<Rightarrow> PingStats \<Rightarrow> PingStats" where
  "Start now s = s\<lparr>startTime := now\<rparr>"

definition PacketReceived :: "Duration \<Rightarrow> PingStats \<Rightarrow> PingStats" where
  "PacketReceived r s = s\<lparr>packets := packets s @ [\<lparr>successful = True, rtt = Some r\<rparr>]\<rparr>"

definition PacketLost :: "PingStats \<Rightarrow> PingStats" where
  "PacketLost s = s\<lparr>packets := packets s @ [\<lparr>successful = False, rtt = None\<rparr>]\<rparr>"

definition ms :: "Duration \<Rightarrow> f64" where
  "ms d = fdiv (f64_of_int (sint d)) (Fin 1000000)"

definition processDurations ::
  "(f64 \<Rightarrow> int64) \<Rightarrow> (f64 \<Rightarrow> f64 \<Rightarrow> f64) \<Rightarrow> Duration \<Rightarrow> Duration \<Rightarrow> Duration" where
  "processDurations cvt fn a b = int64_of_f64 cvt (fn (f64_of_int (sint a)) (f64_of_int (sint b)))"

text \<open>
  The first loop of \<open>Calculate\<close>, from index \<open>i\<close> on: counts, the sum of the round-trip
  times, and the least and greatest one.  A record without a round-trip time is counted
  and then skipped (\<open>continue\<close>).
\<close>

fun calc_scan ::
  "(f64 \<Rightarrow> int64) \<Rightarrow> nat \<Rightarrow> packetStat list \<Rightarrow> PingSummary \<times> int64 \<Rightarrow> PingSummary \<times> int64" where
  "calc_scan cvt i [] acc = acc"
| "calc_scan cvt i (p # rest) (s, rttsum) =
     (let s1 = s\<lparr>NumPackets := NumPackets s + 1\<rparr>;
          s2 = (if successful p then s1\<lparr>NumReceived := NumReceived s1 + 1\<rparr> else s1)
      in case rtt p of
           None \<Rightarrow> calc_scan cvt (i + 1) rest (s2, rttsum)
         | Some r \<Rightarrow>
             calc_scan cvt (i + 1) rest
               (if i = 0 then s2\<lparr>MinRTT := r, MaxRTT := r\<rparr>
                else s2\<lparr>MinRTT := processDurations cvt math_Min (MinRTT s2) r,
                        MaxRTT := processDurations cvt math_Max (MaxRTT s2) r\<rparr>,
                rttsum + r))"

text \<open>The second loop: the sum of the squared distances to the average, in milliseconds.\<close>

fun calc_diffsum :: "Duration \<Rightarrow> packetStat list \<Rightarrow> f64 \<Rightarrow> f64" where
  "calc_diffsum avg [] acc = acc"
| "calc_diffsum avg (p # rest) acc =
     (case rtt p of
        None \<Rightarrow> calc_diffsum avg rest acc
      | Some r \<Rightarrow> calc_diffsum avg rest (fadd acc (math_Pow2 (fsub (ms r) (ms avg)))))"

definition Calculate :: "(f64 \<Rightarrow> int64) \<Rightarrow> Time \<Rightarrow> PingStats \<Rightarrow> crash + PingSummary" where
  "Calculate cvt now s =
     (if length (packets s) = 0 then Inr zero_summary
      else
        let ps0 = zero_summary\<lparr>TotalDuration := time_Sub now (startTime s)\<rparr>;
            (ps1, rttsum) = calc_scan cvt 0 (packets s) (ps0, 0)
        in case int64_div rttsum (word_of_nat (length (packets s))) of
             Inl e \<Rightarrow> Inl e
           | Inr avg \<Rightarrow>
               let ps2 = ps1\<lparr>AvgRTT := avg\<rparr>;
                   rttdiffsum = calc_diffsum avg (packets s) (Fin 0);
                   sd = int64_of_f64 cvt
                          (fmul (math_Sqrt (fdiv rttdiffsum
                                   (f64_of_int (int (length (packets s)) - 1))))
                                (Fin 1000000))
               in Inr (ps2\<lparr>SdevRTT := sd\<rparr>))"

text \<open>A run records probes one after the other through the two recording operations.\<close>

datatype probe = Received Duration | Lost

fun record_probe :: "PingStats \<Rightarrow> probe \<Rightarrow> PingStats" where
  "record_probe s (Received r) = PacketReceived r s"
| "record_probe s Lost = PacketLost s"

definition new_stats :: "Time \<Rightarrow> PingStats" where
  "new_stats t0 = \<lparr>startTime = t0, packets = []\<rparr>"

definition record_all :: "Time \<Rightarrow> probe list \<Rightarrow> PingStats" where
  "record_all t0 evs = foldl record_probe (new_stats t0) evs"

section \<open>The probe engine: \<open>Pinger\<close>\<close>

subsection \<open>Addresses, packets and ICMP messages\<close>

text \<open>
  The program looks at a \<open>net.IP\<close> only through \<open>String()\<close> and through printing, so an
  IP address is that text.  A \<open>net.Addr\<close> is one of the two address types the program
  accepts, or any other.
\<close>

type_synonym byte = "8 word"

record IPAddr =
  IP :: string
  Zone :: string

datatype net_Addr =
    IPAddr_ref IPAddr
  | UDPAddr_ref string int string
  | OtherAddr

record packet =
  bytes :: "byte list"
  addr :: net_Addr

datatype ICMPType =
    ICMPTypeEcho
  | ICMPTypeEchoReply
  | ICMPTypeTimeExceeded
  | ICMPTypeOther nat

datatype MessageBody =
    Echo int int "byte list"
  | OtherBody

record Message =
  Type :: ICMPType
  Code :: int
  Body :: MessageBody

text \<open>Errors of the transport: a \<open>*net.OpError\<close> with its cause and \<open>Timeout()\<close>, or another.\<close>

datatype errno = ENOBUFS | OtherErrno

datatype net_error =
    OpError errno bool
  | NotOpError

text \<open>The error values the engine itself returns, one per message text.\<close>

datatype go_error =
    UnknownAddrType
  | ParseFailed "byte list"
  | TTLExceededNoSeq string
  | TTLExceeded string int
  | InvalidReplyType ICMPType
  | InvalidReplyBody
  | InvalidID int
  | UnexpectedHost IPAddr
  | MarshalFailed

subsection \<open>State\<close>

record task =
  t_id :: int
  t_seq :: int
  t_sendTime :: Time
  t_addr :: IPAddr

record response =
  r_addr :: IPAddr
  r_rtt :: Duration
  r_seq :: int
  r_bytelen :: int
  r_ttl :: int

text \<open>Lines of the log, by the statement that prints them.\<close>

datatype log_line =
    LogPing string string nat
  | LogFailedToPing string int
  | LogRequestTimeout int
  | LogRecvError go_error
  | LogReply int string int int Duration
  | LogText string
  | LogDebug string

text \<open>
  What lives outside the \<open>Pinger\<close>: the global statistics \<open>ps\<close>, the log, and the
  \<open>WriteTo\<close> calls made on the connection.
\<close>

record world =
  ps :: PingStats
  out :: "log_line list"
  conn_writes :: "(byte list \<times> IPAddr) list"

type_synonym ReceiveFunc = "response \<Rightarrow> go_error option \<Rightarrow> world \<Rightarrow> world"

text \<open>
  The fields of \<open>Pinger\<close> that a sequential run reads or writes.  \<open>mux\<close> is true while the
  mutex is held.  The sequence number stays far below the range of \<open>int\<close>.  The connection,
  which \<open>NewPinger\<close> opens, and the channels between the three activities are outside: what
  they deliver is an argument of the step it reaches.
\<close>

record Pinger =
  maxRTT :: Duration
  interval :: Duration
  mux :: bool
  debug :: bool
  queue :: "int \<rightharpoonup> task"
  callback :: "ReceiveFunc option"
  seq :: int

definition NewPinger :: "Duration \<Rightarrow> Duration \<Rightarrow> bool \<Rightarrow> ReceiveFunc option \<Rightarrow> Pinger" where
  "NewPinger ival mrtt dbg cb =
     \<lparr>maxRTT = mrtt, interval = ival, mux = False, debug = dbg,
      queue = Map.empty, callback = cb, seq = 0\<rparr>"

definition Lock :: "Pinger \<Rightarrow> crash + Pinger" where
  "Lock p = (if mux p then Inl LockBlocksForever else Inr (p\<lparr>mux := True\<rparr>))"

definition Unlock :: "Pinger \<Rightarrow> crash + Pinger" where
  "Unlock p = (if mux p then Inr (p\<lparr>mux := False\<rparr>) else Inl UnlockOfUnlockedMutex)"

definition println :: "log_line \<Rightarrow> world \<Rightarrow> world" where
  "println l w = w\<lparr>out := out w @ [l]\<rparr>"

definition debugf :: "Pinger \<Rightarrow> string \<Rightarrow> world \<Rightarrow> world" where
  "debugf p m w = (if debug p then println (LogDebug m) w else w)"

definition handler :: ReceiveFunc where
  "handler resp err w =
     (println (LogReply (r_bytelen resp) (IP (r_addr resp)) (r_seq resp) (r_ttl resp) (r_rtt resp)) w)
       \<lparr>ps := PacketReceived (r_rtt resp) (ps w)\<rparr>"

subsection \<open>\<open>unqueuePkt\<close>\<close>

text \<open>
  The mutex is taken and its release deferred.  When the id is not in the queue the
  function releases the mutex itself before it returns, and the deferred release then
  runs on a mutex that is no longer held.
\<close>

definition unqueuePkt :: "int \<Rightarrow> Pinger \<Rightarrow> crash + (Pinger \<times> (go_error + task))" where
  "unqueuePkt i p =
     (case Lock p of
        Inl c \<Rightarrow> Inl c
      | Inr p1 \<Rightarrow>
          (case queue p1 i of
             None \<Rightarrow>
               (case Unlock p1 of
                  Inl c \<Rightarrow> Inl c
                | Inr p2 \<Rightarrow>
                    (case Unlock p2 of
                       Inl c \<Rightarrow> Inl c
                     | Inr p3 \<Rightarrow> Inr (p3, Inl (InvalidID i))))
           | Some t \<Rightarrow>
               (case Unlock (p1\<lparr>queue := (queue p1)(i := None)\<rparr>) of
                  Inl c \<Rightarrow> Inl c
                | Inr p3 \<Rightarrow> Inr (p3, Inr t))))"

subsection \<open>\<open>sendICMP\<close>\<close>

text \<open>\<open>big.NewInt(t.UnixNano()).Bytes()\<close>: the absolute value, big-endian, no leading zero.\<close>

fun be_bytes :: "nat \<Rightarrow> byte list" where
  "be_bytes n = (if n = 0 then [] else be_bytes (n div 256) @ [of_nat (n mod 256)])"

definition timeToBytes :: "Time \<Rightarrow> byte list" where
  "timeToBytes t = be_bytes (nat \<bar>sint (word_of_int t :: int64)\<bar>)"

text \<open>
  What one send takes from outside: the number \<open>rand.Intn(0xffff)\<close> returns, the clock,
  the marshaller of the ICMP library, and the result of each \<open>WriteTo\<close> call in turn
  (\<open>None\<close> for success).
\<close>

record send_env =
  rand_id :: int
  send_now :: Time
  Marshal :: "Message \<Rightarrow> byte list option"
  WriteTo :: "nat \<Rightarrow> net_error option"

definition MaxSendRetries :: int64 where
  "MaxSendRetries = 5"

text \<open>
  The write loop, at the \<open>k\<close>-th call of \<open>WriteTo\<close> with \<open>retries\<close> failures counted.
  Only \<open>ENOBUFS\<close> inside a \<open>*net.OpError\<close> leads to another call.
\<close>

function write_loop ::
  "(nat \<Rightarrow> net_error option) \<Rightarrow> byte list \<Rightarrow> IPAddr \<Rightarrow> int \<Rightarrow> int64 \<Rightarrow> nat \<Rightarrow> world \<Rightarrow> world" where
  "write_loop wr bs target sq retries k w =
     (let w1 = w\<lparr>conn_writes := conn_writes w @ [(bs, target)]\<rparr>
      in case wr k of
           None \<Rightarrow> w1
         | Some (OpError ENOBUFS tmo) \<Rightarrow>
             (if retries + 1 = MaxSendRetries then println (LogFailedToPing (IP target) sq) w1
              else write_loop wr bs target sq (retries + 1) (k + 1) w1)
         | Some (OpError OtherErrno tmo) \<Rightarrow> w1
         | Some NotOpError \<Rightarrow> w1)"
  by pat_completeness auto
termination
proof (relation "measure (\<lambda>(wr, bs, target, sq, retries, k, w). unat (4 - retries))")
  show "wf (measure (\<lambda>(wr, bs, target, sq, retries, k, w). unat (4 - retries)))" by simp
next
  fix wr :: "nat \<Rightarrow> net_error option" and bs :: "byte list" and target :: IPAddr
    and sq :: int and retries :: int64 and k :: nat and w w1 :: world
    and x2 :: net_error and x11 :: errno and x12 :: bool
  assume more: "retries + 1 \<noteq> MaxSendRetries"
  define x where "x = 4 - retries"
  have nz: "x \<noteq> 0"
  proof
    assume "x = 0"
    then have "retries = 4" unfolding x_def by (simp only: right_minus_eq)
    then have "retries + 1 = 5" by simp
    with more show False by (simp add: MaxSendRetries_def)
  qed
  have e: "4 - (retries + 1) = x - 1" by (simp add: x_def)
  have "unat (x - 1) < unat x" using nz by (simp add: unat_minus_one unat_gt_0)
  then have "unat (4 - (retries + 1)) < unat (4 - retries)" unfolding e x_def .
  then show "((wr, bs, target, sq, retries + 1, k + 1, w1), (wr, bs, target, sq, retries, k, w))
        \<in> measure (\<lambda>(wr, bs, target, sq, retries, k, w). unat (4 - retries))"
    by simp
qed

declare write_loop.simps [simp del]

definition sendICMP ::
  "send_env \<Rightarrow> string \<Rightarrow> IPAddr \<Rightarrow> Pinger \<times> world \<Rightarrow> crash + ((Pinger \<times> world) \<times> go_error option)" where
  "sendICMP env host target pw =
     (let p = fst pw; w = snd pw; i = rand_id env; timestamp = send_now env
      in case Lock p of
           Inl c \<Rightarrow> Inl c
         | Inr p1 \<Rightarrow>
             (let sq = seq p1;
                  p2 = p1\<lparr>seq := seq p1 + 1,
                          queue := (queue p1)(i \<mapsto>
                            \<lparr>t_id = i, t_seq = sq, t_sendTime = timestamp, t_addr = target\<rparr>)\<rparr>
              in case Unlock p2 of
                   Inl c \<Rightarrow> Inl c
                 | Inr p3 \<Rightarrow>
                     (case Marshal env
                             \<lparr>Type = ICMPTypeEcho, Code = 0,
                              Body = Echo i sq (timeToBytes timestamp)\<rparr> of
                        None \<Rightarrow> Inr ((p3, w), Some MarshalFailed)
                      | Some bs \<Rightarrow>
                          (let w1 = (if sq = 0 then println (LogPing host (IP target) (length bs)) w
                                     else w);
                               w2 = debugf p3 ''Send: ID %d, Seq: %d, Bytes: %d %x'' w1;
                               w3 = write_loop (WriteTo env) bs target sq 0 0 w2
                           in Inr ((p3, w3), None)))))"

subsection \<open>\<open>receiveLoop\<close>\<close>

text \<open>
  One turn of the receive loop.  \<open>ReadFrom\<close> fills the fresh buffer of 64 bytes from its
  start with \<open>rd_data\<close>, as far as the buffer reaches; the count it returns is dropped,
  and the packet handed on is the whole buffer.  \<open>stop\<close> tells whether a stop request is pending at the head of the turn,
  \<open>stop'\<close> whether the hand-over loses against one.
\<close>

record read_result =
  rd_data :: "byte list"
  rd_addr :: "net_Addr option"
  rd_err :: "net_error option"

datatype recv_step =
    RecvStopped
  | RecvStoppedAtHandoff
  | RecvAgain
  | RecvFailed net_error
  | RecvHandoff packet

definition read_into :: "byte list \<Rightarrow> byte list \<Rightarrow> byte list" where
  "read_into buf d = take (length buf) d @ drop (length d) buf"

definition handoff ::
  "bool \<Rightarrow> Pinger \<Rightarrow> byte list \<Rightarrow> net_Addr option \<Rightarrow> world \<Rightarrow> crash + (recv_step \<times> world)" where
  "handoff stop' p buf a w =
     (case a of
        None \<Rightarrow> Inl NilDereference
      | Some ad \<Rightarrow>
          (let w1 = debugf p ''Received package from addr: %s'' w
           in if stop'
              then Inr (RecvStoppedAtHandoff, println (LogText ''receiveLoop(): <-p.recvCtx.stop'') w1)
              else Inr (RecvHandoff \<lparr>bytes = buf, addr = ad\<rparr>, w1)))"

definition receiveLoop_step ::
  "bool \<Rightarrow> read_result \<Rightarrow> bool \<Rightarrow> Pinger \<Rightarrow> world \<Rightarrow> crash + (recv_step \<times> world)" where
  "receiveLoop_step stop rd stop' p w =
     (if stop then Inr (RecvStopped, debugf p ''receiveLoop(): <-p.recvCtx.stop'' w)
      else
        let buf = read_into (replicate 64 0) (rd_data rd)
        in case rd_err rd of
             None \<Rightarrow> handoff stop' p buf (rd_addr rd) w
           | Some (OpError e tmo) \<Rightarrow>
               (if tmo then Inr (RecvAgain, w)
                else Inr (RecvFailed (OpError e tmo),
                          debugf p ''receiveLoop(): OpError happen %v'' w))
           | Some NotOpError \<Rightarrow> handoff stop' p buf (rd_addr rd) w)"

subsection \<open>\<open>processRecv\<close> and \<open>processLoop\<close>\<close>

text \<open>
  \<open>parse\<close> is \<open>icmp.ParseMessage\<close> for the ICMP protocol, \<open>None\<close> when it returns an error;
  \<open>now\<close> is the clock when the reply is matched.  In the time-exceeded case the loss is
  recorded by a deferred call, so on every return of that case.  \<open>processRecv\<close> is
  written in parts: \<open>time_exceeded\<close> is the case of that type, \<open>echo_reply\<close> what follows
  the switch on the type, \<open>dispatch\<close> the parse and that switch.
\<close>

definition lost :: "world \<Rightarrow> world" where
  "lost w = w\<lparr>ps := PacketLost (ps w)\<rparr>"

definition echo_reply ::
  "Time \<Rightarrow> packet \<Rightarrow> IPAddr \<Rightarrow> Message \<Rightarrow> Pinger \<times> world \<Rightarrow> crash + ((Pinger \<times> world) \<times> go_error option)" where
  "echo_reply now recv ipaddr m pw =
     (let p = fst pw;
          w = debugf p ''Type: %d. Code: %d. Len: %d. Payload: %x'' (snd pw)
      in case Body m of
           Echo i sq d \<Rightarrow>
             (case unqueuePkt i p of
                Inl c \<Rightarrow> Inl c
              | Inr (p1, Inl e) \<Rightarrow> Inr ((p1, w), Some e)
              | Inr (p1, Inr t) \<Rightarrow>
                  (let rt = (if sq = t_seq t then time_Sub now (t_sendTime t) else 0)
                   in if IP ipaddr \<noteq> IP (t_addr t) then Inr ((p1, w), Some (UnexpectedHost ipaddr))
                      else case callback p1 of
                             None \<Rightarrow> Inr ((p1, w), None)
                           | Some cb \<Rightarrow>
                               Inr ((p1, cb \<lparr>r_addr = ipaddr, r_rtt = rt, r_seq = t_seq t,
                                             r_bytelen = int (length (bytes recv)), r_ttl = 0\<rparr>
                                           None w), None)))
         | OtherBody \<Rightarrow> Inr ((p, w), Some InvalidReplyBody))"

definition time_exceeded ::
  "(byte list \<Rightarrow> Message option) \<Rightarrow> packet \<Rightarrow> IPAddr \<Rightarrow> Pinger \<times> world \<Rightarrow> crash + ((Pinger \<times> world) \<times> go_error option)" where
  "time_exceeded parse recv ipaddr pw =
     (let p = fst pw; w = snd pw
      in if length (bytes recv) < 16 then Inl SliceOutOfRange
         else case parse (drop (length (bytes recv) - 16) (bytes recv)) of
                None \<Rightarrow> Inr ((p, lost w), Some (TTLExceededNoSeq (IP ipaddr)))
              | Some origMsg \<Rightarrow>
                  (case Body origMsg of
                     OtherBody \<Rightarrow> Inr ((p, lost w), Some (TTLExceededNoSeq (IP ipaddr)))
                   | Echo i sq d \<Rightarrow>
                       (case unqueuePkt i p of
                          Inl c \<Rightarrow> Inl c
                        | Inr (p1, Inl e) \<Rightarrow> Inr ((p1, lost w), Some e)
                        | Inr (p1, Inr t) \<Rightarrow>
                            Inr ((p1, lost w), Some (TTLExceeded (IP ipaddr) sq)))))"

definition dispatch ::
  "(byte list \<Rightarrow> Message option) \<Rightarrow> Time \<Rightarrow> packet \<Rightarrow> IPAddr \<Rightarrow> Pinger \<times> world \<Rightarrow> crash + ((Pinger \<times> world) \<times> go_error option)" where
  "dispatch parse now recv ipaddr pw =
     (case parse (bytes recv) of
        None \<Rightarrow> Inr (pw, Some (ParseFailed (bytes recv)))
      | Some m \<Rightarrow>
          (case Type m of
             ICMPTypeEchoReply \<Rightarrow> echo_reply now recv ipaddr m pw
           | ICMPTypeTimeExceeded \<Rightarrow> time_exceeded parse recv ipaddr pw
           | ICMPTypeEcho \<Rightarrow> Inr (pw, Some (InvalidReplyType (Type m)))
           | ICMPTypeOther n \<Rightarrow> Inr (pw, Some (InvalidReplyType (Type m)))))"

definition processRecv ::
  "(byte list \<Rightarrow> Message option) \<Rightarrow> Time \<Rightarrow> packet \<Rightarrow> Pinger \<times> world \<Rightarrow> crash + ((Pinger \<times> world) \<times> go_error option)" where
  "processRecv parse now recv pw =
     (case addr recv of
        IPAddr_ref a \<Rightarrow> dispatch parse now recv a pw
      | UDPAddr_ref ip port zone \<Rightarrow> dispatch parse now recv \<lparr>IP = ip, Zone = zone\<rparr> pw
      | OtherAddr \<Rightarrow> Inr (pw, Some UnknownAddrType))"

text \<open>
  The sweep of the idle branch.  \<open>order\<close> is the order in which \<open>range\<close> visits the keys
  of the queue, and \<open>clock i\<close> the value of \<open>time.Now()\<close> when the entry \<open>i\<close> is looked at.
\<close>

fun sweep :: "(int \<Rightarrow> Time) \<Rightarrow> int list \<Rightarrow> Pinger \<times> world \<Rightarrow> Pinger \<times> world" where
  "sweep clock [] pw = pw"
| "sweep clock (i # rest) (p, w) =
     (case queue p i of
        None \<Rightarrow> sweep clock rest (p, w)
      | Some t \<Rightarrow>
          (if clock i > t_sendTime t + sint (maxRTT p)
           then sweep clock rest
                  (p\<lparr>queue := (queue p)(i := None)\<rparr>,
                   println (LogRequestTimeout (t_seq t)) (lost w))
           else sweep clock rest (p, w)))"

text \<open>One turn of the processing loop, by the branch of the \<open>select\<close> that is taken.\<close>

datatype select_case =
    StopRequested
  | Received_packet packet Time
  | Idle "int list" "int \<Rightarrow> Time"

fun processLoop_step ::
  "(byte list \<Rightarrow> Message option) \<Rightarrow> select_case \<Rightarrow> Pinger \<times> world \<Rightarrow> crash + (bool \<times> Pinger \<times> world)" where
  "processLoop_step parse StopRequested (p, w) =
     Inr (False, p, debugf p ''processLoop(): <-p.processCtx.stop'' w)"
| "processLoop_step parse (Received_packet r now) (p, w) =
     (case processRecv parse now r (p, debugf p ''processLoop(): <-p.recvCh'' w) of
        Inl c \<Rightarrow> Inl c
      | Inr ((p1, w1), None) \<Rightarrow> Inr (True, p1, w1)
      | Inr ((p1, w1), Some e) \<Rightarrow> Inr (True, p1, println (LogRecvError e) w1))"
| "processLoop_step parse (Idle order clock) (p, w) =
     (case Lock p of
        Inl c \<Rightarrow> Inl c
      | Inr p1 \<Rightarrow>
          (case sweep clock order (p1, w) of
             (p2, w2) \<Rightarrow>
               (case Unlock p2 of
                  Inl c \<Rightarrow> Inl c
                | Inr p3 \<Rightarrow> Inr (True, p3, w2))))"

text \<open>The record each recording operation appends, and the round-trip times recorded.\<close>

fun stat_of :: "probe \<Rightarrow> packetStat" where
  "stat_of (Received r) = \<lparr>successful = True, rtt = Some r\<rparr>"
| "stat_of Lost = \<lparr>successful = False, rtt = None\<rparr>"

fun received_rtts :: "probe list \<Rightarrow> Duration list" where
  "received_rtts [] = []"
| "received_rtts (Received r # es) = r # received_rtts es"
| "received_rtts (Lost # es) = received_rtts es"

definition received_total :: "probe list \<Rightarrow> int" where
  "received_total evs = (\<Sum>r\<leftarrow>received_rtts evs. sint r)"

section \<open>Notions used to state the properties\<close>

text \<open>A write result that makes the loop of \<open>sendICMP\<close> call \<open>WriteTo\<close> again.\<close>

definition is_ENOBUFS :: "net_error option \<Rightarrow> bool" where
  "is_ENOBUFS r = (case r of Some (OpError ENOBUFS tmo) \<Rightarrow> True | _ \<Rightarrow> False)"

text \<open>
  The number of \<open>WriteTo\<close> calls of one send, read off the results of the calls: the
  position of the first result that is not \<open>ENOBUFS\<close>, and five at most.
\<close>

definition attempts :: "(nat \<Rightarrow> net_error option) \<Rightarrow> nat" where
  "attempts wr =
     (if \<not> is_ENOBUFS (wr 0) then 1 else if \<not> is_ENOBUFS (wr 1) then 2
      else if \<not> is_ENOBUFS (wr 2) then 3 else if \<not> is_ENOBUFS (wr 3) then 4 else 5)"

text \<open>The request a send stores, and the \<open>Pinger\<close> after the locked section of the send.\<close>

definition new_task :: "send_env \<Rightarrow> IPAddr \<Rightarrow> Pinger \<Rightarrow> task" where
  "new_task env target p =
     \<lparr>t_id = rand_id env, t_seq = seq p, t_sendTime = send_now env, t_addr = target\<rparr>"

definition enqueued :: "send_env \<Rightarrow> IPAddr \<Rightarrow> Pinger \<Rightarrow> Pinger" where
  "enqueued env target p =
     p\<lparr>seq := seq p + 1, queue := (queue p)(rand_id env \<mapsto> new_task env target p)\<rparr>"

text \<open>
  An entry is expired at the instant it is looked at when its send time lies more than
  \<open>maxRTT\<close> before that instant.
\<close>

definition expired :: "(int \<Rightarrow> Time) \<Rightarrow> Pinger \<Rightarrow> int \<Rightarrow> bool" where
  "expired clock p i =
     (case queue p i of None \<Rightarrow> False | Some t \<Rightarrow> t_sendTime t < clock i - sint (maxRTT p))"

definition lost_record :: packetStat where
  "lost_record = \<lparr>successful = False, rtt = None\<rparr>"

text \<open>
  A duration that \<open>float64\<close> holds exactly, as every duration below 104 days is.
\<close>

definition exact_range :: "Duration \<Rightarrow> bool" where
  "exact_range d = (\<bar>sint d\<bar> < 2 ^ 53)"

text \<open>What a send returned and wrote, the queue it left, and a further send on its result.\<close>

definition send_result ::
  "crash + ((Pinger \<times> world) \<times> go_error option) \<Rightarrow> crash + (go_error option \<times> nat)" where
  "send_result r =
     (case r of Inl c \<Rightarrow> Inl c | Inr ((p, w), e) \<Rightarrow> Inr (e, length (conn_writes w)))"

definition queue_after ::
  "crash + ((Pinger \<times> world) \<times> go_error option) \<Rightarrow> int \<Rightarrow> task option" where
  "queue_after r i = (case r of Inl c \<Rightarrow> None | Inr ((p, w), e) \<Rightarrow> queue p i)"

definition send_again ::
  "send_env \<Rightarrow> string \<Rightarrow> IPAddr \<Rightarrow> crash + ((Pinger \<times> world) \<times> go_error option)
     \<Rightarrow> crash + ((Pinger \<times> world) \<times> go_error option)" where
  "send_again env host target r =
     (case r of Inl c \<Rightarrow> Inl c | Inr (pw, e) \<Rightarrow> sendICMP env host target pw)"

section \<open>Concrete collaborators and states for the examples\<close>

text \<open>
  A parser and a marshaller that follow the wire layout of ICMP (RFC 792): type, code and
  checksum, then for echo messages the identifier and the sequence number, big-endian, and
  the data.  The checksum is left zero.  They stand for the ICMP library in examples; the
  properties below hold for any parser and marshaller.
\<close>

definition be16 :: "byte \<Rightarrow> byte \<Rightarrow> int" where
  "be16 hi lo = int (unat hi) * 256 + int (unat lo)"

definition wire_type :: "byte \<Rightarrow> ICMPType" where
  "wire_type b =
     (if b = 0 then ICMPTypeEchoReply else if b = 8 then ICMPTypeEcho
      else if b = 11 then ICMPTypeTimeExceeded else ICMPTypeOther (unat b))"

fun wire_ParseMessage :: "byte list \<Rightarrow> Message option" where
  "wire_ParseMessage (ty # code # c1 # c2 # body) =
     (if ty = 0 \<or> ty = 8
      then (case body of
              i1 # i2 # s1 # s2 # d \<Rightarrow>
                Some \<lparr>Type = wire_type ty, Code = int (unat code),
                      Body = Echo (be16 i1 i2) (be16 s1 s2) d\<rparr>
            | _ \<Rightarrow> None)
      else Some \<lparr>Type = wire_type ty, Code = int (unat code), Body = OtherBody\<rparr>)"
| "wire_ParseMessage _ = None"

definition wire_Marshal :: "Message \<Rightarrow> byte list option" where
  "wire_Marshal m =
     (case Body m of
        Echo i sq d \<Rightarrow>
          Some ([8, 0, 0, 0, word_of_int (i div 256), word_of_int i,
                 word_of_int (sq div 256), word_of_int sq] @ d)
      | OtherBody \<Rightarrow> None)"

text \<open>A connection that refuses every write with an error other than \<open>ENOBUFS\<close>, and one that accepts.\<close>

definition refusing_conn :: "nat \<Rightarrow> net_error option" where
  "refusing_conn k = Some (OpError OtherErrno False)"

definition accepting_conn :: "nat \<Rightarrow> net_error option" where
  "accepting_conn k = None"

text \<open>A target, an empty world, a send whose random id is 7, and a fresh \<open>Pinger\<close>.\<close>

definition sample_target :: IPAddr where
  "sample_target = \<lparr>IP = ''192.0.2.1'', Zone = []\<rparr>"

definition world0 :: world where
  "world0 = \<lparr>ps = new_stats 0, out = [], conn_writes = []\<rparr>"

definition sample_env :: "Time \<Rightarrow> (nat \<Rightarrow> net_error option) \<Rightarrow> send_env" where
  "sample_env t wr = \<lparr>rand_id = 7, send_now = t, Marshal = wire_Marshal, WriteTo = wr\<rparr>"

definition sample_pinger :: Pinger where
  "sample_pinger = NewPinger 1000000000 1000000000 False (Some handler)"

text \<open>
  The \<open>Pinger\<close> after one send at instant 1000.  A buffer of 64 bytes with a time-exceeded
  message: its header, the quoted IP header and echo request of 16 bytes, and behind them
  what the removal of the outer IP header left in place, so that the last 16 bytes are the
  echo request again.  A \<open>Pinger\<close> with two requests in flight, a clock that stands still
  during a sweep, and an echo reply of 8 bytes as read and as handed on.
\<close>

definition in_flight :: Pinger where
  "in_flight = enqueued (sample_env 1000 accepting_conn) sample_target sample_pinger"


definition two_in_flight :: Pinger where
  "two_in_flight =
     sample_pinger
       \<lparr>maxRTT := 1000,
        queue := [1 \<mapsto> \<lparr>t_id = 1, t_seq = 0, t_sendTime = 0, t_addr = sample_target\<rparr>,
                  2 \<mapsto> \<lparr>t_id = 2, t_seq = 1, t_sendTime = 900, t_addr = sample_target\<rparr>],
        seq := 2\<rparr>"

definition fixed_clock :: "Time \<Rightarrow> int \<Rightarrow> Time" where
  "fixed_clock t i = t"

definition short_reply :: read_result where
  "short_reply =
     \<lparr>rd_data = [0, 0, 0, 0, 0, 7, 0, 0], rd_addr = Some (IPAddr_ref sample_target),
      rd_err = None\<rparr>"

definition padded_reply :: packet where
  "padded_reply =
     \<lparr>bytes = [0, 0, 0, 0, 0, 7, 0, 0] @ replicate 56 0, addr = IPAddr_ref sample_target\<rparr>"

section \<open>Properties of the statistics\<close>

subsection \<open>Rounding and integer facts\<close>

lemma round_half_even_of_int: "round_half_even (of_int m) = m"
  by (simp add: round_half_even_def)

lemma f64_exponent_small:
  assumes "k \<noteq> 0" "\<bar>k\<bar> < 2 ^ 53"
  shows "0 \<le> f64_exponent (of_int k) \<and> f64_exponent (of_int k) \<le> 52"
proof -
  let ?x = "of_int k :: real"
  have x1: "1 \<le> \<bar>?x\<bar>"
  proof -
    have "1 \<le> \<bar>k\<bar>" using assms(1) by simp
    then have "(1::real) \<le> of_int \<bar>k\<bar>" by (simp only: of_int_1_le_iff)
    then show ?thesis by simp
  qed
  have x2: "\<bar>?x\<bar> < 2 ^ 53"
  proof -
    have "(of_int \<bar>k\<bar> :: real) < of_int (2 ^ 53)" using assms(2) by (simp only: of_int_less_iff)
    then show ?thesis by simp
  qed
  have "0 \<le> log 2 \<bar>?x\<bar>" using x1 by simp
  moreover have "log 2 \<bar>?x\<bar> < 53"
  proof -
    have "log 2 \<bar>?x\<bar> < log 2 (2 ^ 53)" using x1 x2 by (subst log_less_cancel_iff) auto
    also have "log 2 ((2::real) ^ 53) = real 53" by (rule log_pow_cancel) simp_all
    finally show ?thesis by simp
  qed
  ultimately have "0 \<le> \<lfloor>log 2 \<bar>?x\<bar>\<rfloor> \<and> \<lfloor>log 2 \<bar>?x\<bar>\<rfloor> \<le> 52"
    by (simp add: floor_less_iff le_floor_iff flip: zless_add1_eq) 
  then show ?thesis by (simp add: f64_exponent_def)
qed

lemma f64_round_of_int:
  assumes "\<bar>k\<bar> < 2 ^ 53"
  shows "f64_round (of_int k) = Fin (of_int k)"
proof (cases "k = 0")
  case True then show ?thesis by (simp add: f64_round_def)
next
  case False
  define e where "e = f64_exponent (of_int k)"
  have e: "0 \<le> e" "e \<le> 52" using f64_exponent_small [OF False assms] by (simp_all add: e_def)
  define n where "n = nat (52 - e)"
  have u: "(2::real) powr (of_int e - 52) = 1 / 2 ^ n"
  proof -
    have "of_int e - 52 = - real n" using e by (simp add: n_def)
    then show ?thesis by (simp add: powr_minus powr_realpow divide_simps)
  qed
  have q: "(of_int k :: real) / (1 / 2 ^ n) = of_int (k * 2 ^ n)" by simp
  have y: "of_int (round_half_even (of_int k / (1 / 2 ^ n))) * (1 / 2 ^ n) = (of_int k :: real)"
    unfolding q round_half_even_of_int by simp
  have b: "\<bar>of_int k :: real\<bar> < 2 powr 1024"
  proof -
    have "(of_int \<bar>k\<bar> :: real) < of_int (2 ^ 53)" using assms by (simp only: of_int_less_iff)
    then have "\<bar>of_int k :: real\<bar> < 2 ^ 53" by simp
    also have "\<dots> \<le> 2 ^ 1024" by (rule power_increasing) simp_all
    also have "\<dots> = 2 powr 1024" by (simp add: powr_realpow [symmetric])
    finally show ?thesis .
  qed
  show ?thesis
    unfolding f64_round_def Let_def e_def [symmetric] u y using False b by simp
qed


lemma packets_foldl: "packets (foldl record_probe s evs) = packets s @ map stat_of evs"
proof (induction evs arbitrary: s)
  case Nil show ?case by simp
next
  case (Cons e evs)
  show ?case by (cases e) (simp_all add: Cons PacketReceived_def PacketLost_def)
qed

lemma packets_record_all: "packets (record_all t0 evs) = map stat_of evs"
  by (simp add: record_all_def packets_foldl new_stats_def)

lemma calc_scan_sum:
  "snd (calc_scan cvt i (map stat_of evs) (s, a)) = a + sum_list (received_rtts evs)"
proof (induction evs arbitrary: i s a)
  case Nil show ?case by simp
next
  case (Cons e evs)
  show ?case by (cases e) (simp_all add: Cons Let_def add.assoc)
qed


lemma sum_list_word_of_int:
  "sum_list (xs :: int64 list) = word_of_int (\<Sum>r\<leftarrow>xs. sint r)"
  by (induction xs) simp_all

lemma sint_word_of_int_range:
  "sint (word_of_int k :: int64) = k" if "- (2 ^ 63) \<le> k" "k < 2 ^ 63"
  using that by (simp add: signed_of_int signed_take_bit_int_eq_self)

lemma sint_word_of_nat_range:
  "sint (word_of_nat n :: int64) = int n" if "n < 2 ^ 63"
proof -
  have "int n < 2 ^ 63" using that by (metis of_nat_less_iff of_nat_numeral of_nat_power)
  then show ?thesis by (simp add: signed_of_nat signed_take_bit_int_eq_self)
qed

lemma word_of_nat_length_nonzero:
  "(word_of_nat n :: int64) \<noteq> 0" if "0 < n" "n < 2 ^ 63"
proof
  assume "(word_of_nat n :: int64) = 0"
  then have "sint (word_of_nat n :: int64) = 0" by simp
  then show False using that by (simp add: sint_word_of_nat_range)
qed

lemma sdiv_range:
  "- (2 ^ 63) \<le> k sdiv l \<and> k sdiv l < 2 ^ 63" if "- (2 ^ 63) \<le> k" "k < 2 ^ 63" "0 < l" for k l :: int
proof -
  have q: "0 \<le> \<bar>k\<bar> div l \<and> \<bar>k\<bar> div l \<le> \<bar>k\<bar>"
    using that(3) zdiv_mono2 [of "\<bar>k\<bar>" 1 l] by (simp add: pos_imp_zdiv_nonneg_iff)
  show ?thesis
  proof (cases "0 \<le> k")
    case True
    then have "k sdiv l = \<bar>k\<bar> div l" using that(3) by (simp add: signed_divide_int_def sgn_if)
    then show ?thesis using q that True by simp
  next
    case False
    then have "k sdiv l = - (\<bar>k\<bar> div l)" using that(3) by (simp add: signed_divide_int_def sgn_if)
    then show ?thesis using q that False by simp
  qed
qed


lemma startTime_foldl: "startTime (foldl record_probe s evs) = startTime s"
proof (induction evs arbitrary: s)
  case Nil show ?case by simp
next
  case (Cons e evs)
  show ?case by (cases e) (simp_all add: Cons PacketReceived_def PacketLost_def)
qed

lemma startTime_record_all: "startTime (record_all t0 evs) = t0"
  by (simp add: record_all_def startTime_foldl new_stats_def)

lemma Calculate_nonempty:
  assumes "evs \<noteq> []" "length evs < 2 ^ 63"
  shows "Calculate cvt now (record_all t0 evs) =
    Inr ((fst (calc_scan cvt 0 (map stat_of evs)
               (zero_summary\<lparr>TotalDuration := time_Sub now t0\<rparr>, 0)))
          \<lparr>AvgRTT := word_of_int (sint (sum_list (received_rtts evs)) sdiv int (length evs)),
           SdevRTT := int64_of_f64 cvt
              (fmul (math_Sqrt (fdiv
                 (calc_diffsum (word_of_int (sint (sum_list (received_rtts evs)) sdiv int (length evs)))
                    (map stat_of evs) (Fin 0))
                 (f64_of_int (int (length evs) - 1)))) (Fin 1000000))\<rparr>)"
proof -
  have nz: "(word_of_nat (length evs) :: int64) \<noteq> 0"
    using assms by (simp add: word_of_nat_length_nonzero)
  obtain ps1 rttsum where sc: "calc_scan cvt 0 (map stat_of evs)
      (zero_summary\<lparr>TotalDuration := time_Sub now t0\<rparr>, 0) = (ps1, rttsum)"
    by (cases "calc_scan cvt 0 (map stat_of evs)
      (zero_summary\<lparr>TotalDuration := time_Sub now t0\<rparr>, 0)")
  have "rttsum = sum_list (received_rtts evs)"
    using calc_scan_sum [of cvt 0 evs "zero_summary\<lparr>TotalDuration := time_Sub now t0\<rparr>" 0] sc
    by simp
  then show ?thesis
    using assms nz sc
    by (simp add: Calculate_def packets_record_all startTime_record_all int64_div_def Let_def
        sint_word_of_nat_range)
qed

lemma AvgRTT_calc_scan_update [simp]:
  "AvgRTT (s\<lparr>AvgRTT := a, SdevRTT := d\<rparr>) = a" "SdevRTT (s\<lparr>AvgRTT := a, SdevRTT := d\<rparr>) = d"
  "MinRTT (s\<lparr>AvgRTT := a, SdevRTT := d\<rparr>) = MinRTT s" "MaxRTT (s\<lparr>AvgRTT := a, SdevRTT := d\<rparr>) = MaxRTT s"
  by simp_all

lemma one_packet_quotient:
  "fdiv (fadd (Fin 0) (math_Pow2 (fsub x x))) (Fin 0) = NaN"
  by (cases x) (simp_all add: fsub_def f64_round_def)

lemma Calculate_one_packet_sdev:
  "\<exists>s. Calculate cvt now (record_all t0 [e]) = Inr s \<and> SdevRTT s = cvt NaN"
proof -
  have a: "[e] \<noteq> []" "length [e] < 2 ^ 63" by simp_all
  have avg: "(word_of_int (sint r sdiv 1) :: int64) = r" for r by simp
  show ?thesis unfolding Calculate_nonempty [OF a]
    by (cases e) (simp_all add: f64_of_int_def f64_round_def one_packet_quotient int64_of_f64_def)
qed

lemma f64_of_int_exact: "\<bar>k\<bar> < 2 ^ 53 \<Longrightarrow> f64_of_int k = Fin (of_int k)"
  by (simp add: f64_of_int_def f64_round_of_int)

lemma truncate_real_of_int [simp]: "truncate_real (of_int k) = k"
  by (simp add: truncate_real_def)

lemma int64_of_f64_of_int:
  "- (2 ^ 63) \<le> k \<Longrightarrow> k < 2 ^ 63 \<Longrightarrow> int64_of_f64 cvt (Fin (of_int k)) = word_of_int k"
  by (simp add: int64_of_f64_def)

lemma Min_of_ints:
  assumes "\<bar>ka\<bar> < 2 ^ 53" "\<bar>kb\<bar> < 2 ^ 53"
  shows "int64_of_f64 cvt (math_Min (f64_of_int ka) (f64_of_int kb))
         = word_of_int (if ka < kb then ka else kb)"
proof -
  have "- (2 ^ 63) \<le> ka \<and> ka < 2 ^ 63 \<and> - (2 ^ 63) \<le> kb \<and> kb < 2 ^ 63" using assms by (simp add: abs_if split: if_splits)
  then show ?thesis using assms
    by (simp add: f64_of_int_exact int64_of_f64_of_int)
qed

lemma Max_of_ints:
  assumes "\<bar>ka\<bar> < 2 ^ 53" "\<bar>kb\<bar> < 2 ^ 53"
  shows "int64_of_f64 cvt (math_Max (f64_of_int ka) (f64_of_int kb))
         = word_of_int (if ka > kb then ka else kb)"
proof -
  have "- (2 ^ 63) \<le> ka \<and> ka < 2 ^ 63 \<and> - (2 ^ 63) \<le> kb \<and> kb < 2 ^ 63" using assms by (simp add: abs_if split: if_splits)
  then show ?thesis using assms
    by (simp add: f64_of_int_exact int64_of_f64_of_int)
qed

lemma processDurations_Min_exact:
  assumes "\<bar>sint a\<bar> < 2 ^ 53" "\<bar>sint b\<bar> < 2 ^ 53"
  shows "processDurations cvt math_Min a b = (if sint a < sint b then a else b)"
  unfolding processDurations_def Min_of_ints [OF assms] by simp

lemma processDurations_Max_exact:
  assumes "\<bar>sint a\<bar> < 2 ^ 53" "\<bar>sint b\<bar> < 2 ^ 53"
  shows "processDurations cvt math_Max a b = (if sint a > sint b then a else b)"
  unfolding processDurations_def Max_of_ints [OF assms] by simp

subsection \<open>The summary\<close>

text \<open>
  C9: with no probe recorded, \<open>Calculate\<close> returns normally, and every field of the
  summary (packets sent and received, elapsed time, least, average, greatest and
  standard-deviation round-trip time) is zero.
\<close>

theorem Calculate_no_packets:
  "Calculate cvt now (record_all t0 []) = Inr zero_summary
   \<and> NumPackets zero_summary = 0 \<and> NumReceived zero_summary = 0
   \<and> TotalDuration zero_summary = 0 \<and> MinRTT zero_summary = 0
   \<and> AvgRTT zero_summary = 0 \<and> MaxRTT zero_summary = 0 \<and> SdevRTT zero_summary = 0"
  by (simp add: Calculate_def record_all_def new_stats_def zero_summary_def)


text \<open>
  C5: for a non-empty sequence of recorded probes, the average round-trip time of the
  summary is the sum of the round-trip times of the received records divided by the number
  of all records, received or lost: in the \<open>int64\<close> arithmetic of the program, and, where
  the sum fits \<open>int64\<close>, as integers, the quotient truncated towards zero.  A Go slice
  holds fewer than \<open>2 ^ 63\<close> records.
\<close>

theorem Calculate_average_over_sent:
  assumes "evs \<noteq> []" and "length evs < 2 ^ 63"
  shows "\<exists>s. Calculate cvt now (record_all t0 evs) = Inr s
     \<and> int64_div (sum_list (received_rtts evs)) (word_of_nat (length evs)) = Inr (AvgRTT s)
     \<and> (- (2 ^ 63) \<le> received_total evs \<and> received_total evs < 2 ^ 63
          \<longrightarrow> sint (AvgRTT s) = received_total evs sdiv int (length evs))"
proof -
  have nz: "(word_of_nat (length evs) :: int64) \<noteq> 0"
    using assms by (simp add: word_of_nat_length_nonzero)
  have n: "sint (word_of_nat (length evs) :: int64) = int (length evs)"
    using assms by (simp add: sint_word_of_nat_range)
  have pos: "0 < int (length evs)" using assms(1) by simp
  have r: "sint (word_of_int (received_total evs sdiv int (length evs)) :: int64)
           = received_total evs sdiv int (length evs)"
    if "- (2 ^ 63) \<le> received_total evs" "received_total evs < 2 ^ 63"
    using sdiv_range [OF that pos] by (simp add: sint_word_of_int_range)
  have t: "sint (sum_list (received_rtts evs)) = received_total evs"
    if "- (2 ^ 63) \<le> received_total evs" "received_total evs < 2 ^ 63"
    using that by (simp add: sum_list_word_of_int [of "received_rtts evs"] received_total_def
        sint_word_of_int_range)
  show ?thesis
    unfolding Calculate_nonempty [OF assms]
    using nz n r t by (auto simp: int64_div_def)
qed

theorem Calculate_average_over_sent_witness:
  "[Received 10000000, Received 20000000, Lost] \<noteq> []
   \<and> length [Received 10000000, Received 20000000, Lost] < (2::nat) ^ 63
   \<and> (\<exists>s. Calculate amd64_cvt 5000000000 (record_all 0 [Received 10000000, Received 20000000, Lost]) = Inr s
        \<and> sint (AvgRTT s) = 10000000)"
proof -
  have e: "[Received 10000000, Received 20000000, Lost] \<noteq> []" by simp
  have l: "length [Received 10000000, Received 20000000, Lost] < (2::nat) ^ 63" by simp
  have t: "received_total [Received 10000000, Received 20000000, Lost] = 30000000"
    by (simp add: received_total_def)
  show ?thesis
    using Calculate_average_over_sent [OF e l, of amd64_cvt 5000000000 0] e l
    unfolding t by auto
qed

text \<open>
  C4: with exactly one recorded probe the standard-deviation field of the summary is to be
  zero, never a value derived from not-a-number.  In \<open>Calculate\<close> the divisor \<open>n - 1\<close> is
  then zero and so is the sum above it: the quotient is not-a-number, and the field is what
  the platform converts not-a-number to.  On amd64, after one reply of 10 ms, that is the
  least \<open>int64\<close>, not zero.
\<close>

theorem Calculate_one_packet_sdev_amd64:
  "\<exists>s. Calculate amd64_cvt 5000000000 (record_all 0 [Received 10000000]) = Inr s
       \<and> sint (SdevRTT s) = - 9223372036854775808 \<and> SdevRTT s \<noteq> 0"
  using Calculate_one_packet_sdev [of amd64_cvt 5000000000 0 "Received 10000000"]
  by (auto simp: amd64_cvt_def)

text \<open>
  C6: the least and greatest round-trip time of the summary are to be those of the received
  records alone.  \<open>Calculate\<close> sets the running values from a record only at index 0; when
  the first record is a loss they start from the zero of the fresh summary, and one loss
  followed by one reply of 10 ms gives a least round-trip time of 0, not of 10 ms.
\<close>

theorem Calculate_first_lost_min:
  "\<exists>s. Calculate cvt now (record_all t0 [Lost, Received 10000000]) = Inr s
       \<and> MinRTT s = 0 \<and> MaxRTT s = 10000000"
proof -
  have a: "[Lost, Received 10000000] \<noteq> []" "length [Lost, Received 10000000] < 2 ^ 63" by simp_all
  show ?thesis unfolding Calculate_nonempty [OF a]
    by (simp add: processDurations_Min_exact processDurations_Max_exact zero_summary_def)
qed

text \<open>The scenario of five replies in time: 10, 12, 11, 9 and 13 ms.\<close>

lemma Calculate_five_replies:
  "\<exists>s. Calculate cvt now (record_all t0
          [Received 10000000, Received 12000000, Received 11000000, Received 9000000,
           Received 13000000]) = Inr s
       \<and> NumReceived s = 5 \<and> MinRTT s = 9000000 \<and> MaxRTT s = 13000000 \<and> AvgRTT s = 11000000"
proof -
  have a: "[Received 10000000, Received 12000000, Received 11000000, Received 9000000,
           Received (13000000::Duration)] \<noteq> []"
     "length [Received 10000000, Received 12000000, Received 11000000, Received 9000000,
           Received (13000000::Duration)] < 2 ^ 63" by simp_all
  show ?thesis unfolding Calculate_nonempty [OF a]
    by (simp add: processDurations_Min_exact processDurations_Max_exact zero_summary_def)
qed


text \<open>
  When the first record is a reply, and the durations are in the range \<open>float64\<close> holds
  exactly, the least and greatest round-trip time of the summary are those of the replies.
\<close>

lemma calc_scan_min_max:
  assumes "0 < i" and "list_all exact_range (received_rtts evs)"
    and "exact_range (MinRTT s)" and "exact_range (MaxRTT s)"
  shows "sint (MinRTT (fst (calc_scan cvt i (map stat_of evs) (s, a))))
           = Min (insert (sint (MinRTT s)) (sint ` set (received_rtts evs)))
       \<and> sint (MaxRTT (fst (calc_scan cvt i (map stat_of evs) (s, a))))
           = Max (insert (sint (MaxRTT s)) (sint ` set (received_rtts evs)))"
  using assms
proof (induction evs arbitrary: i s a)
  case Nil
  show ?case by simp
next
  case (Cons e evs)
  show ?case
  proof (cases e)
    case Lost
    have "sint (MinRTT (fst (calc_scan cvt (i + 1) (map stat_of evs)
              (s\<lparr>NumPackets := NumPackets s + 1\<rparr>, a))))
           = Min (insert (sint (MinRTT (s\<lparr>NumPackets := NumPackets s + 1\<rparr>))) (sint ` set (received_rtts evs)))
       \<and> sint (MaxRTT (fst (calc_scan cvt (i + 1) (map stat_of evs) (s\<lparr>NumPackets := NumPackets s + 1\<rparr>, a))))
           = Max (insert (sint (MaxRTT (s\<lparr>NumPackets := NumPackets s + 1\<rparr>))) (sint ` set (received_rtts evs)))"
      using Cons.prems Lost by (intro Cons.IH) simp_all
    then show ?thesis using Lost by (simp add: Let_def)
  next
    case (Received r)
    let ?s' = "s\<lparr>NumPackets := NumPackets s + 1, NumReceived := NumReceived s + 1,
                 MinRTT := processDurations cvt math_Min (MinRTT s) r,
                 MaxRTT := processDurations cvt math_Max (MaxRTT s) r\<rparr>"
    have r: "exact_range r" "list_all exact_range (received_rtts evs)"
      using Cons.prems(2) Received by simp_all
    have mn: "MinRTT ?s' = (if sint (MinRTT s) < sint r then MinRTT s else r)"
      using processDurations_Min_exact [of "MinRTT s" r cvt] Cons.prems(3) r(1)
      by (simp add: exact_range_def)
    have mx: "MaxRTT ?s' = (if sint (MaxRTT s) > sint r then MaxRTT s else r)"
      using processDurations_Max_exact [of "MaxRTT s" r cvt] Cons.prems(4) r(1)
      by (simp add: exact_range_def)
    have ex: "exact_range (MinRTT ?s')" "exact_range (MaxRTT ?s')"
      unfolding mn mx using Cons.prems(3,4) r(1) by simp_all
    have ih: "sint (MinRTT (fst (calc_scan cvt (i + 1) (map stat_of evs) (?s', a + r))))
           = Min (insert (sint (MinRTT ?s')) (sint ` set (received_rtts evs)))
       \<and> sint (MaxRTT (fst (calc_scan cvt (i + 1) (map stat_of evs) (?s', a + r))))
           = Max (insert (sint (MaxRTT ?s')) (sint ` set (received_rtts evs)))"
      using r(2) ex by (intro Cons.IH) simp_all
    have m1: "Min (insert (sint (MinRTT ?s')) (sint ` set (received_rtts evs)))
        = Min (insert (sint (MinRTT s)) (insert (sint r) (sint ` set (received_rtts evs))))"
      unfolding mn by (cases "set (received_rtts evs) = {}") (auto simp: min_def)
    have m2: "Max (insert (sint (MaxRTT ?s')) (sint ` set (received_rtts evs)))
        = Max (insert (sint (MaxRTT s)) (insert (sint r) (sint ` set (received_rtts evs))))"
      unfolding mx by (cases "set (received_rtts evs) = {}") (auto simp: max_def)
    show ?thesis
      using ih Received Cons.prems(1) unfolding m1 m2 by (simp add: Let_def)
  qed
qed

lemma Calculate_min_max_first_received:
  assumes "length (Received r # evs) < 2 ^ 63"
    and "list_all exact_range (received_rtts (Received r # evs))"
  shows "\<exists>s. Calculate cvt now (record_all t0 (Received r # evs)) = Inr s
     \<and> sint (MinRTT s) = Min (sint ` set (received_rtts (Received r # evs)))
     \<and> sint (MaxRTT s) = Max (sint ` set (received_rtts (Received r # evs)))"
proof -
  have ne: "Received r # evs \<noteq> []" by simp
  let ?s1 = "zero_summary\<lparr>TotalDuration := time_Sub now t0, NumPackets := 1, NumReceived := 1,
               MinRTT := r, MaxRTT := r\<rparr>"
  have mm: "sint (MinRTT (fst (calc_scan cvt (0 + 1) (map stat_of evs) (?s1, 0 + r))))
           = Min (insert (sint (MinRTT ?s1)) (sint ` set (received_rtts evs)))
       \<and> sint (MaxRTT (fst (calc_scan cvt (0 + 1) (map stat_of evs) (?s1, 0 + r))))
           = Max (insert (sint (MaxRTT ?s1)) (sint ` set (received_rtts evs)))"
    using assms(2) by (intro calc_scan_min_max) simp_all
  show ?thesis
    unfolding Calculate_nonempty [OF ne assms(1)]
    using mm by (simp add: Let_def zero_summary_def)
qed


section \<open>Properties of the engine\<close>

subsection \<open>The mutex and the queue\<close>

lemma Lock_Unlock [simp]:
  "\<not> mux p \<Longrightarrow> Lock p = Inr (p\<lparr>mux := True\<rparr>)"
  "mux p \<Longrightarrow> Unlock p = Inr (p\<lparr>mux := False\<rparr>)"
  "\<not> mux p \<Longrightarrow> Unlock p = Inl UnlockOfUnlockedMutex"
  by (simp_all add: Lock_def Unlock_def)

lemma unqueuePkt_present:
  "\<not> mux p \<Longrightarrow> queue p i = Some t \<Longrightarrow>
     unqueuePkt i p = Inr (p\<lparr>queue := (queue p)(i := None)\<rparr>, Inr t)"
  by (simp add: unqueuePkt_def)

lemma unqueuePkt_absent:
  "\<not> mux p \<Longrightarrow> queue p i = None \<Longrightarrow> unqueuePkt i p = Inl UnlockOfUnlockedMutex"
  by (simp add: unqueuePkt_def)

lemma unqueuePkt_callback:
  "unqueuePkt i p = Inr (p1, r) \<Longrightarrow> callback p1 = callback p"
  by (auto simp: unqueuePkt_def Lock_def Unlock_def split: if_splits option.splits sum.splits)

lemma enqueued_unlocked [simp]: "mux (enqueued env target p) = mux p"
  by (simp add: enqueued_def)

lemma sample_pinger_unlocked [simp]: "\<not> mux sample_pinger"
  by (simp add: sample_pinger_def NewPinger_def)

lemma wire_Marshal_Echo [simp]:
  "wire_Marshal \<lparr>Type = ty, Code = c, Body = Echo i sq d\<rparr> =
     Some ([8, 0, 0, 0, word_of_int (i div 256), word_of_int i,
            word_of_int (sq div 256), word_of_int sq] @ d)"
  by (simp add: wire_Marshal_def)

lemma in_flight_simps:
  "\<not> mux in_flight" "queue in_flight 7 = Some \<lparr>t_id = 7, t_seq = 0, t_sendTime = 1000, t_addr = sample_target\<rparr>"
  "callback in_flight = Some handler" "debug in_flight = False"
  by (simp_all add: in_flight_def enqueued_def new_task_def sample_env_def sample_pinger_def
      NewPinger_def)

subsection \<open>The write loop\<close>

lemma write_loop_unfold:
  "write_loop wr bs target sq retries k w =
     (if is_ENOBUFS (wr k)
      then (if retries + 1 = 5
            then println (LogFailedToPing (IP target) sq) (w\<lparr>conn_writes := conn_writes w @ [(bs, target)]\<rparr>)
            else write_loop wr bs target sq (retries + 1) (k + 1) (w\<lparr>conn_writes := conn_writes w @ [(bs, target)]\<rparr>))
      else w\<lparr>conn_writes := conn_writes w @ [(bs, target)]\<rparr>)"
  by (subst write_loop.simps)
     (simp add: is_ENOBUFS_def MaxSendRetries_def Let_def split: option.splits net_error.splits errno.splits)

lemma write_loop_from_4:
  "write_loop wr bs target sq 4 k w =
     (if is_ENOBUFS (wr k)
      then println (LogFailedToPing (IP target) sq) (w\<lparr>conn_writes := conn_writes w @ [(bs, target)]\<rparr>)
      else w\<lparr>conn_writes := conn_writes w @ [(bs, target)]\<rparr>)"
  by (subst write_loop_unfold) simp

lemma write_loop_from_3:
  "write_loop wr bs target sq 3 k w =
     (if is_ENOBUFS (wr k)
      then write_loop wr bs target sq 4 (k + 1) (w\<lparr>conn_writes := conn_writes w @ [(bs, target)]\<rparr>)
      else w\<lparr>conn_writes := conn_writes w @ [(bs, target)]\<rparr>)"
  by (subst write_loop_unfold) simp

lemma write_loop_from_2:
  "write_loop wr bs target sq 2 k w =
     (if is_ENOBUFS (wr k)
      then write_loop wr bs target sq 3 (k + 1) (w\<lparr>conn_writes := conn_writes w @ [(bs, target)]\<rparr>)
      else w\<lparr>conn_writes := conn_writes w @ [(bs, target)]\<rparr>)"
  by (subst write_loop_unfold) simp

lemma write_loop_from_1:
  "write_loop wr bs target sq 1 k w =
     (if is_ENOBUFS (wr k)
      then write_loop wr bs target sq 2 (k + 1) (w\<lparr>conn_writes := conn_writes w @ [(bs, target)]\<rparr>)
      else w\<lparr>conn_writes := conn_writes w @ [(bs, target)]\<rparr>)"
  by (subst write_loop_unfold) simp

lemma write_loop_from_0:
  "write_loop wr bs target sq 0 k w =
     (if is_ENOBUFS (wr k)
      then write_loop wr bs target sq 1 (k + 1) (w\<lparr>conn_writes := conn_writes w @ [(bs, target)]\<rparr>)
      else w\<lparr>conn_writes := conn_writes w @ [(bs, target)]\<rparr>)"
  by (subst write_loop_unfold) simp

lemmas write_loop_from = write_loop_from_0 write_loop_from_1 write_loop_from_2
  write_loop_from_3 write_loop_from_4

lemma replicate_upto_5:
  "replicate 2 x = [x, x]" "replicate 3 x = [x, x, x]" "replicate 4 x = [x, x, x, x]"
  "replicate 5 x = [x, x, x, x, x]"
  by (simp_all add: numeral_eq_Suc)

lemma Suc_chain:
  "Suc (Suc 0) = 2" "Suc (Suc (Suc 0)) = 3" "Suc (Suc (Suc (Suc 0))) = 4"
  by simp_all

lemma write_loop_writes:
  "conn_writes (write_loop wr bs target sq 0 0 w) = conn_writes w @ replicate (attempts wr) (bs, target)"
  by (simp add: write_loop_from attempts_def println_def replicate_upto_5 Suc_chain)

lemma write_loop_ps:
  "ps (write_loop wr bs target sq 0 0 w) = ps w"
  by (simp add: write_loop_from println_def Suc_chain)

lemma attempts_bounds: "1 \<le> attempts wr \<and> attempts wr \<le> 5"
  by (simp add: attempts_def)

lemma attempts_retry_only_ENOBUFS: "k + 1 < attempts wr \<Longrightarrow> is_ENOBUFS (wr k)"
  by (cases "k = 0"; cases "k = 1"; cases "k = 2"; cases "k = 3")
     (auto simp: attempts_def split: if_splits)

lemma attempts_stop: "attempts wr < 5 \<Longrightarrow> \<not> is_ENOBUFS (wr (attempts wr - 1))"
  by (auto simp: attempts_def split: if_splits)

subsection \<open>Sending\<close>

lemma sendICMP_unlocked:
  assumes "\<not> mux p"
  shows "sendICMP env host target (p, w) =
     (case Marshal env \<lparr>Type = ICMPTypeEcho, Code = 0,
                        Body = Echo (rand_id env) (seq p) (timeToBytes (send_now env))\<rparr> of
        None \<Rightarrow> Inr ((enqueued env target p, w), Some MarshalFailed)
      | Some bs \<Rightarrow>
          Inr ((enqueued env target p,
                write_loop (WriteTo env) bs target (seq p) 0 0
                  (debugf (enqueued env target p) ''Send: ID %d, Seq: %d, Bytes: %d %x''
                     (if seq p = 0 then println (LogPing host (IP target) (length bs)) w else w))),
               None))"
proof -
  have e: "p\<lparr>mux := True, seq := seq p + 1, queue := q, mux := False\<rparr> = p\<lparr>seq := seq p + 1, queue := q\<rparr>" for q
    using assms by simp
  show ?thesis using assms
    by (simp add: sendICMP_def Let_def enqueued_def new_task_def e split: option.splits)
qed

text \<open>
  A send that marshals its message returns no error, whatever the connection answered.  It
  calls \<open>WriteTo\<close> between one and five times, each call but the last was answered with
  \<open>ENOBUFS\<close>, and when it stops before the fifth call the last answer was not \<open>ENOBUFS\<close>.
\<close>

lemma sendICMP_write_attempts:
  assumes "\<not> mux p"
    and "Marshal env \<lparr>Type = ICMPTypeEcho, Code = 0,
                      Body = Echo (rand_id env) (seq p) (timeToBytes (send_now env))\<rparr> = Some bs"
  shows "\<exists>p' w' n. sendICMP env host target (p, w) = Inr ((p', w'), None)
           \<and> conn_writes w' = conn_writes w @ replicate n (bs, target)
           \<and> 1 \<le> n \<and> n \<le> 5
           \<and> (\<forall>k. k + 1 < n \<longrightarrow> is_ENOBUFS (WriteTo env k))
           \<and> (n < 5 \<longrightarrow> \<not> is_ENOBUFS (WriteTo env (n - 1)))"
proof -
  let ?n = "attempts (WriteTo env)"
  have "1 \<le> ?n \<and> ?n \<le> 5" by (rule attempts_bounds)
  moreover have "\<forall>k. k + 1 < ?n \<longrightarrow> is_ENOBUFS (WriteTo env k)"
    using attempts_retry_only_ENOBUFS by blast
  moreover have "?n < 5 \<longrightarrow> \<not> is_ENOBUFS (WriteTo env (?n - 1))"
    using attempts_stop by blast
  ultimately show ?thesis
    unfolding sendICMP_unlocked [OF assms(1)] assms(2)
    by (simp add: write_loop_writes debugf_def println_def)
qed

lemma sendICMP_write_attempts_refused:
  "\<not> mux sample_pinger
   \<and> Marshal (sample_env 1000 refusing_conn)
        \<lparr>Type = ICMPTypeEcho, Code = 0,
         Body = Echo (rand_id (sample_env 1000 refusing_conn)) (seq sample_pinger)
                  (timeToBytes (send_now (sample_env 1000 refusing_conn)))\<rparr>
       = Some ([8, 0, 0, 0, 0, 7, 0, 0] @ timeToBytes 1000)
   \<and> (\<exists>p' w'. sendICMP (sample_env 1000 refusing_conn) ''example'' sample_target
                    (sample_pinger, world0) = Inr ((p', w'), None)
         \<and> conn_writes w' = [([8, 0, 0, 0, 0, 7, 0, 0] @ timeToBytes 1000, sample_target)])"
proof -
  have m: "Marshal (sample_env 1000 refusing_conn)
        \<lparr>Type = ICMPTypeEcho, Code = 0,
         Body = Echo (rand_id (sample_env 1000 refusing_conn)) (seq sample_pinger)
                  (timeToBytes (send_now (sample_env 1000 refusing_conn)))\<rparr>
       = Some ([8, 0, 0, 0, 0, 7, 0, 0] @ timeToBytes 1000)"
    by (simp add: sample_env_def sample_pinger_def NewPinger_def)
  obtain p' w' n where r:
    "sendICMP (sample_env 1000 refusing_conn) ''example'' sample_target (sample_pinger, world0)
       = Inr ((p', w'), None)"
    "conn_writes w' = conn_writes world0
        @ replicate n ([8, 0, 0, 0, 0, 7, 0, 0] @ timeToBytes 1000, sample_target)"
    "1 \<le> n" "\<forall>k. k + 1 < n \<longrightarrow> is_ENOBUFS (WriteTo (sample_env 1000 refusing_conn) k)"
    using sendICMP_write_attempts [OF sample_pinger_unlocked m, of "''example''" sample_target world0]
    by blast
  have "\<not> is_ENOBUFS (WriteTo (sample_env 1000 refusing_conn) 0)"
    by (simp add: sample_env_def refusing_conn_def is_ENOBUFS_def)
  with r(4) have "\<not> 0 + 1 < n" by blast
  with r(3) have "n = 1" by simp
  with r(1,2) m show ?thesis by (simp add: world0_def)
qed

text \<open>
  C2: the write of a probe is tried at most five times, and again only after \<open>ENOBUFS\<close>;
  any other error of the write is to come back from the send as its error.  On a
  connection that refuses the write with another error, \<open>sendICMP\<close> makes one call of
  \<open>WriteTo\<close> and returns no error.
\<close>

theorem sendICMP_swallows_write_error:
  "send_result (sendICMP (sample_env 1000 refusing_conn) ''example'' sample_target
     (sample_pinger, world0)) = Inr (None, 1)"
  by (simp add: sendICMP_unlocked send_result_def sample_env_def write_loop_from
      is_ENOBUFS_def refusing_conn_def debugf_def println_def world0_def
      sample_pinger_def NewPinger_def)

text \<open>
  C3, as the code has it: a send stores its request under the id the random number
  generator gave, without looking whether that id is in use.  Whatever was stored under
  that id is replaced by the new request, every other entry stays as it was, and the
  sequence number advances by one.  So an id is in the queue at most once, with the
  request stored last.
\<close>

theorem sendICMP_stores_under_drawn_id:
  assumes "\<not> mux p"
  shows "\<exists>w' e. sendICMP env host target (p, w) =
           Inr ((p\<lparr>seq := seq p + 1,
                   queue := (queue p)(rand_id env \<mapsto>
                      \<lparr>t_id = rand_id env, t_seq = seq p, t_sendTime = send_now env,
                       t_addr = target\<rparr>)\<rparr>, w'), e)"
  unfolding sendICMP_unlocked [OF assms]
  by (simp add: enqueued_def new_task_def split: option.splits)

theorem sendICMP_stores_under_drawn_id_witness:
  "\<not> mux (enqueued (sample_env 1000 accepting_conn) sample_target sample_pinger)
   \<and> queue (enqueued (sample_env 1000 accepting_conn) sample_target sample_pinger) 7
       = Some \<lparr>t_id = 7, t_seq = 0, t_sendTime = 1000, t_addr = sample_target\<rparr>
   \<and> (\<exists>p' w' e. sendICMP (sample_env 2000 accepting_conn) ''example'' sample_target
          (enqueued (sample_env 1000 accepting_conn) sample_target sample_pinger, world0)
            = Inr ((p', w'), e)
          \<and> seq p' = 2
          \<and> queue p' 7 = Some \<lparr>t_id = 7, t_seq = 1, t_sendTime = 2000, t_addr = sample_target\<rparr>)"
proof -
  have u: "\<not> mux (enqueued (sample_env 1000 accepting_conn) sample_target sample_pinger)"
    by simp
  show ?thesis
    using sendICMP_stores_under_drawn_id [OF u, of "sample_env 2000 accepting_conn" "''example''"
        sample_target world0]
    by (auto simp: enqueued_def new_task_def sample_env_def sample_pinger_def NewPinger_def)
qed

text \<open>
  C3 as stated fails on two sends that draw the same id 7: the request of the first
  (sequence number 0, sent at 1000) is in the queue after it, and is replaced by the
  request of the second, which returns no error.
\<close>

theorem sendICMP_overwrites_entry:
  "queue_after (sendICMP (sample_env 1000 accepting_conn) ''example'' sample_target
       (sample_pinger, world0)) 7
     = Some \<lparr>t_id = 7, t_seq = 0, t_sendTime = 1000, t_addr = sample_target\<rparr>
   \<and> queue_after (send_again (sample_env 2000 accepting_conn) ''example'' sample_target
        (sendICMP (sample_env 1000 accepting_conn) ''example'' sample_target
           (sample_pinger, world0))) 7
     = Some \<lparr>t_id = 7, t_seq = 1, t_sendTime = 2000, t_addr = sample_target\<rparr>
   \<and> send_result (send_again (sample_env 2000 accepting_conn) ''example'' sample_target
        (sendICMP (sample_env 1000 accepting_conn) ''example'' sample_target
           (sample_pinger, world0)))
     = Inr (None, 2)"
  by (simp add: sendICMP_unlocked send_again_def queue_after_def send_result_def enqueued_def
      new_task_def sample_env_def sample_pinger_def NewPinger_def write_loop_from
      is_ENOBUFS_def accepting_conn_def debugf_def println_def world0_def)

subsection \<open>Removing\<close>

text \<open>
  C1: on a fresh \<open>Pinger\<close>, a send stores its request and removing its id returns that
  request and empties the queue; removing the id again is to report an unknown id and
  never to end the run.  In \<open>unqueuePkt\<close> the second removal releases the mutex twice, and
  the process ends with the fatal error of the runtime for that.
\<close>

theorem unqueuePkt_second_removal_crashes:
  "(\<exists>w' e. sendICMP env host target (NewPinger ival mrtt dbg cb, w) =
        Inr (((NewPinger ival mrtt dbg cb)
               \<lparr>seq := 1,
                queue := [rand_id env \<mapsto>
                   \<lparr>t_id = rand_id env, t_seq = 0, t_sendTime = send_now env, t_addr = target\<rparr>]\<rparr>,
              w'), e))
   \<and> unqueuePkt (rand_id env)
        ((NewPinger ival mrtt dbg cb)
           \<lparr>seq := 1,
            queue := [rand_id env \<mapsto>
               \<lparr>t_id = rand_id env, t_seq = 0, t_sendTime = send_now env, t_addr = target\<rparr>]\<rparr>)
      = Inr ((NewPinger ival mrtt dbg cb)\<lparr>seq := 1, queue := Map.empty\<rparr>,
             Inr \<lparr>t_id = rand_id env, t_seq = 0, t_sendTime = send_now env, t_addr = target\<rparr>)
   \<and> unqueuePkt (rand_id env) ((NewPinger ival mrtt dbg cb)\<lparr>seq := 1, queue := Map.empty\<rparr>)
      = Inl UnlockOfUnlockedMutex"
proof -
  have u: "\<not> mux (NewPinger ival mrtt dbg cb)" by (simp add: NewPinger_def)
  show ?thesis
    unfolding sendICMP_unlocked [OF u]
    by (simp add: unqueuePkt_present unqueuePkt_absent NewPinger_def enqueued_def new_task_def
        split: option.splits)
qed

text \<open>The same in the processing loop: an echo reply whose id is not in the queue.\<close>

lemma unknown_reply_crashes:
  assumes "\<not> mux p" and "addr recv \<noteq> OtherAddr"
    and "parse (bytes recv) = Some m" and "Type m = ICMPTypeEchoReply"
    and "Body m = Echo i sq d" and "queue p i = None"
  shows "processLoop_step parse (Received_packet recv now) (p, w) = Inl UnlockOfUnlockedMutex"
proof -
  obtain a where a: "\<And>pw. processRecv parse now recv pw = dispatch parse now recv a pw"
    using assms(2) by (cases "addr recv") (simp_all add: processRecv_def)
  show ?thesis
    using assms by (simp add: a dispatch_def echo_reply_def unqueuePkt_absent)
qed

text \<open>A second copy of an echo reply, after the first removed the id.\<close>

lemma duplicate_reply_crashes:
  "processLoop_step wire_ParseMessage (Received_packet padded_reply 6000)
     (in_flight\<lparr>queue := (queue in_flight)(7 := None)\<rparr>, world0) = Inl UnlockOfUnlockedMutex"
  by (simp add: processRecv_def dispatch_def echo_reply_def padded_reply_def wire_type_def
      be16_def unqueuePkt_absent in_flight_simps)

subsection \<open>Time exceeded\<close>



subsection \<open>The sweep\<close>

lemma sweep_result:
  "\<exists>p' w'. sweep clock order (p, w) = (p', w')
     \<and> queue p' = (\<lambda>i. if i \<in> set order \<and> expired clock p i then None else queue p i)
     \<and> maxRTT p' = maxRTT p \<and> mux p' = mux p \<and> seq p' = seq p
     \<and> p' = p\<lparr>queue := queue p'\<rparr>
     \<and> (distinct order \<longrightarrow>
          packets (ps w') = packets (ps w) @ replicate (length (filter (expired clock p) order)) lost_record)"
proof (induction order arbitrary: p w)
  case Nil
  show ?case by simp
next
  case (Cons i rest)
  show ?case
  proof (cases "expired clock p i")
    case False
    then have step: "sweep clock (i # rest) (p, w) = sweep clock rest (p, w)"
      by (auto simp: expired_def split: option.splits)
    from Cons [of p w] obtain p' w' where r: "sweep clock rest (p, w) = (p', w')"
      "queue p' = (\<lambda>j. if j \<in> set rest \<and> expired clock p j then None else queue p j)"
      "maxRTT p' = maxRTT p" "mux p' = mux p" "seq p' = seq p" "p' = p\<lparr>queue := queue p'\<rparr>"
      "distinct rest \<longrightarrow>
          packets (ps w') = packets (ps w) @ replicate (length (filter (expired clock p) rest)) lost_record"
      by blast
    show ?thesis
      unfolding step using r False by (auto simp: fun_eq_iff)
  next
    case True
    then obtain t where t: "queue p i = Some t" "t_sendTime t < clock i - sint (maxRTT p)"
      by (auto simp: expired_def split: option.splits)
    let ?p1 = "p\<lparr>queue := (queue p)(i := None)\<rparr>"
    let ?w1 = "println (LogRequestTimeout (t_seq t)) (lost w)"
    have step: "sweep clock (i # rest) (p, w) = sweep clock rest (?p1, ?w1)"
      using t by simp
    have ex: "expired clock ?p1 j = (j \<noteq> i \<and> expired clock p j)" for j
      by (auto simp: expired_def split: option.splits)
    from Cons [of ?p1 ?w1] obtain p' w' where r: "sweep clock rest (?p1, ?w1) = (p', w')"
      "queue p' = (\<lambda>j. if j \<in> set rest \<and> expired clock ?p1 j then None else queue ?p1 j)"
      "maxRTT p' = maxRTT ?p1" "mux p' = mux ?p1" "seq p' = seq ?p1" "p' = ?p1\<lparr>queue := queue p'\<rparr>"
      "distinct rest \<longrightarrow>
          packets (ps w') = packets (ps ?w1) @ replicate (length (filter (expired clock ?p1) rest)) lost_record"
      by blast
    have f: "filter (expired clock ?p1) rest = filter (expired clock p) rest" if "i \<notin> set rest"
      using that by (auto simp: ex intro: filter_cong)
    show ?thesis
      unfolding step using r True f
      by (auto simp: fun_eq_iff ex println_def lost_def PacketLost_def lost_record_def
          replicate_append_same)
  qed
qed

lemma expired_in_dom: "expired clock p i \<Longrightarrow> i \<in> dom (queue p)"
  by (auto simp: expired_def split: option.splits)

lemma count_expired:
  assumes "distinct order" "set order = dom (queue p)"
  shows "length (filter (expired clock p) order) = card {i. expired clock p i}"
proof -
  have "{i. expired clock p i} \<inter> set order = {i. expired clock p i}"
    using assms(2) expired_in_dom by blast
  then show ?thesis using distinct_length_filter [OF assms(1), of "expired clock p"] by simp
qed

lemma two_in_flight_expired:
  "{i. expired (fixed_clock 1500) two_in_flight i} = {1}"
  by (auto simp: expired_def two_in_flight_def fixed_clock_def split: if_splits)

text \<open>
  C8: an idle turn of the processing loop, whatever the queue and \<open>maxRTT\<close>.  \<open>range\<close>
  visits every key once.  Exactly the entries whose send time is older than the instant
  they are looked at minus \<open>maxRTT\<close> are removed, every other entry stays as it was, and
  one lost packet is recorded for each entry removed.
\<close>

theorem sweep_removes_expired:
  assumes "\<not> mux p" and "distinct order" and "set order = dom (queue p)"
  shows "\<exists>p' w'. processLoop_step parse (Idle order clock) (p, w) = Inr (True, p', w')
     \<and> p' = p\<lparr>queue := queue p'\<rparr>
     \<and> queue p' = (\<lambda>i. if expired clock p i then None else queue p i)
     \<and> packets (ps w') = packets (ps w) @ replicate (card {i. expired clock p i}) lost_record"
proof -
  let ?p1 = "p\<lparr>mux := True\<rparr>"
  obtain p2 w2 where r: "sweep clock order (?p1, w) = (p2, w2)"
     "queue p2 = (\<lambda>i. if i \<in> set order \<and> expired clock ?p1 i then None else queue ?p1 i)"
     "mux p2 = mux ?p1" "p2 = ?p1\<lparr>queue := queue p2\<rparr>"
     "distinct order \<longrightarrow>
          packets (ps w2) = packets (ps w) @ replicate (length (filter (expired clock ?p1) order)) lost_record"
    using sweep_result [of clock order ?p1 w] by blast
  have ex: "expired clock ?p1 = expired clock p"
    by (auto simp: expired_def fun_eq_iff split: option.splits)
  have q: "queue p2 = (\<lambda>i. if expired clock p i then None else queue p i)"
    unfolding r(2) ex using assms(3) expired_in_dom [of clock p] by (auto simp: fun_eq_iff)
  have c: "packets (ps w2) = packets (ps w) @ replicate (card {i. expired clock p i}) lost_record"
    using r(5) assms(2) count_expired [OF assms(2,3), of clock] unfolding ex by simp
  have u: "Unlock p2 = Inr (p2\<lparr>mux := False\<rparr>)" using r(3) by simp
  have e: "p2\<lparr>mux := False\<rparr> = p\<lparr>queue := queue p2\<rparr>"
    using assms(1) by (subst r(4)) simp
  show ?thesis
    using assms(1) r(1) q c u e by simp
qed

theorem sweep_removes_expired_witness:
  "\<not> mux two_in_flight \<and> distinct [1, 2 :: int] \<and> set [1, 2] = dom (queue two_in_flight)
   \<and> (\<exists>p' w'. processLoop_step wire_ParseMessage (Idle [1, 2] (fixed_clock 1500))
                  (two_in_flight, world0) = Inr (True, p', w')
        \<and> queue p' = [2 \<mapsto> \<lparr>t_id = 2, t_seq = 1, t_sendTime = 900, t_addr = sample_target\<rparr>]
        \<and> packets (ps w') = [lost_record])"
proof -
  have h1: "\<not> mux two_in_flight" by (simp add: two_in_flight_def sample_pinger_def NewPinger_def)
  have h2: "distinct [1, 2 :: int]" by simp
  have h3: "set [1, 2] = dom (queue two_in_flight)" by (auto simp: two_in_flight_def)
  have q: "(\<lambda>i. if expired (fixed_clock 1500) two_in_flight i then None else queue two_in_flight i)
      = [2 \<mapsto> \<lparr>t_id = 2, t_seq = 1, t_sendTime = 900, t_addr = sample_target\<rparr>]"
    by (auto simp: fun_eq_iff expired_def two_in_flight_def fixed_clock_def)
  show ?thesis
    using sweep_removes_expired [OF h1 h2 h3, of wire_ParseMessage "fixed_clock 1500" world0]
      h1 h2 h3
    unfolding q two_in_flight_expired
    by (auto simp: world0_def new_stats_def)
qed

subsection \<open>The reported length\<close>

lemma receiveLoop_packet_length:
  assumes "receiveLoop_step stop rd stop' p w0 = Inr (RecvHandoff pkt, w1)"
  shows "length (bytes pkt) = 64"
  using assms
  by (auto simp: receiveLoop_step_def handoff_def read_into_def Let_def
      split: if_splits option.splits net_error.splits)

lemma echo_reply_success:
  assumes "echo_reply now recv a m (p, w) = Inr ((p', w'), None)" and "callback p = Some cb"
  shows "\<exists>sq' rt. w' = cb \<lparr>r_addr = a, r_rtt = rt, r_seq = sq',
                         r_bytelen = int (length (bytes recv)), r_ttl = 0\<rparr> None
                     (debugf p ''Type: %d. Code: %d. Len: %d. Payload: %x'' w)"
proof (cases "Body m")
  case OtherBody
  with assms show ?thesis by (simp add: echo_reply_def)
next
  case (Echo i sq d)
  show ?thesis
  proof (cases "unqueuePkt i p")
    case (Inl c)
    with assms Echo show ?thesis by (simp add: echo_reply_def)
  next
    case (Inr pr)
    obtain p1 r where pr: "pr = (p1, r)" by (cases pr)
    have cb: "callback p1 = Some cb" using unqueuePkt_callback [of i p p1 r] Inr pr assms(2) by simp
    show ?thesis
    proof (cases r)
      case (Inl e)
      with assms Echo Inr pr show ?thesis by (simp add: echo_reply_def)
    next
      case (Inr t)
      with assms Echo \<open>unqueuePkt i p = Inr pr\<close> pr cb show ?thesis
        by (fastforce simp: echo_reply_def Let_def split: if_splits)
    qed
  qed
qed

lemma time_exceeded_error:
  "time_exceeded parse recv a pw \<noteq> Inr (pw', None)"
  by (auto simp: time_exceeded_def Let_def split: option.splits MessageBody.splits sum.splits prod.splits)

lemma dispatch_success:
  assumes "dispatch parse now recv a (p, w) = Inr ((p', w'), None)" and "callback p = Some cb"
  shows "\<exists>sq' rt. w' = cb \<lparr>r_addr = a, r_rtt = rt, r_seq = sq',
                         r_bytelen = int (length (bytes recv)), r_ttl = 0\<rparr> None
                     (debugf p ''Type: %d. Code: %d. Len: %d. Payload: %x'' w)"
proof (cases "parse (bytes recv)")
  case None
  with assms show ?thesis by (simp add: dispatch_def)
next
  case (Some m)
  show ?thesis
  proof (cases "Type m")
    case ICMPTypeEchoReply
    with assms Some show ?thesis by (simp add: dispatch_def echo_reply_success)
  next
    case ICMPTypeTimeExceeded
    with assms Some show ?thesis by (simp add: dispatch_def time_exceeded_error)
  qed (use assms Some in \<open>simp_all add: dispatch_def\<close>)
qed

text \<open>
  C10: a packet handed on by the receive loop, whatever was read, and processed without
  error.  The callback is called with a response whose byte length is 64, the length of
  the receive buffer.
\<close>

theorem reply_bytelen_is_64:
  assumes "receiveLoop_step stop rd stop' p w0 = Inr (RecvHandoff pkt, w1)"
    and "callback p = Some cb"
    and "processRecv parse now pkt (p, w) = Inr ((p', w'), None)"
  shows "\<exists>a sq' rt. w' = cb \<lparr>r_addr = a, r_rtt = rt, r_seq = sq', r_bytelen = 64, r_ttl = 0\<rparr> None
                     (debugf p ''Type: %d. Code: %d. Len: %d. Payload: %x'' w)"
proof -
  have len: "int (length (bytes pkt)) = 64"
    using receiveLoop_packet_length [OF assms(1)] by simp
  show ?thesis
  proof (cases "addr pkt")
    case (IPAddr_ref a)
    with assms(3) have "dispatch parse now pkt a (p, w) = Inr ((p', w'), None)"
      by (simp add: processRecv_def)
    from dispatch_success [OF this assms(2)] show ?thesis unfolding len by blast
  next
    case (UDPAddr_ref ip port zone)
    with assms(3) have "dispatch parse now pkt \<lparr>IP = ip, Zone = zone\<rparr> (p, w) = Inr ((p', w'), None)"
      by (simp add: processRecv_def)
    from dispatch_success [OF this assms(2)] show ?thesis unfolding len by blast
  next
    case OtherAddr
    with assms(3) show ?thesis by (simp add: processRecv_def)
  qed
qed

theorem reply_bytelen_is_64_witness:
  "receiveLoop_step False short_reply False in_flight world0 = Inr (RecvHandoff padded_reply, world0)
   \<and> callback in_flight = Some handler
   \<and> processRecv wire_ParseMessage 5000 padded_reply (in_flight, world0)
       = Inr ((in_flight\<lparr>queue := (queue in_flight)(7 := None)\<rparr>,
               handler \<lparr>r_addr = sample_target, r_rtt = 4000, r_seq = 0, r_bytelen = 64, r_ttl = 0\<rparr>
                 None world0), None)
   \<and> (\<exists>a sq' rt.
         handler \<lparr>r_addr = sample_target, r_rtt = 4000, r_seq = 0, r_bytelen = 64, r_ttl = 0\<rparr>
           None world0
         = handler \<lparr>r_addr = a, r_rtt = rt, r_seq = sq', r_bytelen = 64, r_ttl = 0\<rparr> None
             (debugf in_flight ''Type: %d. Code: %d. Len: %d. Payload: %x'' world0))"
proof -
  have h1: "receiveLoop_step False short_reply False in_flight world0 = Inr (RecvHandoff padded_reply, world0)"
    by (simp add: receiveLoop_step_def short_reply_def padded_reply_def handoff_def read_into_def
        debugf_def in_flight_simps)
  have h2: "callback in_flight = Some handler" by (simp add: in_flight_simps)
  have h3: "processRecv wire_ParseMessage 5000 padded_reply (in_flight, world0)
       = Inr ((in_flight\<lparr>queue := (queue in_flight)(7 := None)\<rparr>,
               handler \<lparr>r_addr = sample_target, r_rtt = 4000, r_seq = 0, r_bytelen = 64, r_ttl = 0\<rparr>
                 None world0), None)"
    by (simp add: processRecv_def dispatch_def echo_reply_def padded_reply_def wire_type_def
        be16_def unqueuePkt_present in_flight_simps debugf_def time_Sub_def)
  show ?thesis
    using reply_bytelen_is_64 [OF h1 h2 h3] h1 h2 h3 by simp
qed


end
